theory Spec2Isabelle
  imports Complex_Main
begin

unbundle bit_operations_syntax

section \<open>Platform functions used by the facilitator\<close>

text \<open>
  The facilitator service (\<^verbatim>\<open>FacilitatorService.ts\<close>) and the settlement scheduler
  (\<^verbatim>\<open>SettlementService.ts\<close>) are TypeScript classes. They rely on a few functions of
  the JavaScript platform: IEEE-754 double arithmetic (\<^verbatim>\<open>parseFloat\<close>, \<^verbatim>\<open>+\<close>,
  \<^verbatim>\<open>>=\<close>, \<^verbatim>\<open>toFixed\<close>), the rendering of integers in strings, and SHA-256 of
  Node's \<^verbatim>\<open>crypto\<close> module. They are modelled here so that the operations can be
  evaluated on concrete inputs.
\<close>

subsection \<open>Doubles\<close>

text \<open>
  A finite double is written \<open>Fin m e\<close> for the value \<open>m * 2 ^ e\<close>, with \<open>m\<close> odd, or
  \<open>Fin 0 0\<close> for zero; negative zero is identified with zero. Every operation rounds
  its exact result to the nearest double, ties to even: 53 significant bits, no bit
  below \<open>2 ^ -1074\<close>, and infinity from \<open>2 ^ 1024\<close> on.
\<close>

datatype jsnum = NaN | PosInf | NegInf | Fin int int

fun log2_search :: "nat list \<Rightarrow> nat \<Rightarrow> nat \<Rightarrow> nat" where
  "log2_search [] acc n = acc"
| "log2_search (s # ss) acc n = log2_search ss (if 2 ^ (acc + s) \<le> n then acc + s else acc) n"

definition bitlen :: "nat \<Rightarrow> nat" where
  \<comment> \<open>the number of binary digits of \<open>n\<close>, found by bisection (exact below \<open>2 ^ 4096\<close>)\<close>
  "bitlen n = (if n = 0 then 0
     else if n < 2 ^ 128 then log2_search [64, 32, 16, 8, 4, 2, 1] 0 n + 1
     else log2_search [2048, 1024, 512, 256, 128, 64, 32, 16, 8, 4, 2, 1] 0 n + 1)"

fun strip_twos :: "nat list \<Rightarrow> nat \<Rightarrow> int \<Rightarrow> nat \<times> int" where
  \<comment> \<open>moves the factors of two of a mantissa into the exponent\<close>
  "strip_twos [] m e = (m, e)"
| "strip_twos (s # ss) m e =
     (if m mod 2 ^ s = 0 then strip_twos ss (m div 2 ^ s) (e + int s) else strip_twos ss m e)"

definition mk_fin :: "bool \<Rightarrow> nat \<Rightarrow> int \<Rightarrow> jsnum" where
  \<comment> \<open>the double \<open>\<plusminus> m * 2 ^ e\<close> for a mantissa of at most 54 bits\<close>
  "mk_fin neg m e =
     (if m = 0 then Fin 0 0
      else if 1024 < int (bitlen m) + e then (if neg then NegInf else PosInf)
      else (case strip_twos [32, 16, 8, 4, 2, 1] m e of
              (m', e') \<Rightarrow> Fin (if neg then - int m' else int m') e'))"

definition half_even :: "nat \<Rightarrow> nat \<Rightarrow> nat \<Rightarrow> nat" where
  \<comment> \<open>the quotient \<open>q\<close> with remainder \<open>r\<close> of a division by \<open>d\<close>, rounded\<close>
  "half_even q r d = (if 2 * r < d then q else if d < 2 * r then q + 1
                      else if even q then q else q + 1)"

definition round_cut :: "bool \<Rightarrow> nat \<Rightarrow> nat \<Rightarrow> int \<Rightarrow> nat \<Rightarrow> jsnum" where
  \<comment> \<open>\<open>\<plusminus> a / b * 2 ^ e\<close> rounded to a multiple of \<open>2 ^ (e + sh)\<close>\<close>
  "round_cut neg a b e sh =
     mk_fin neg (half_even (a div (b * 2 ^ sh)) (a mod (b * 2 ^ sh)) (b * 2 ^ sh)) (e + int sh)"

definition round_scaled :: "bool \<Rightarrow> nat \<Rightarrow> nat \<Rightarrow> int \<Rightarrow> jsnum" where
  \<comment> \<open>for a quotient \<open>a / b\<close> of at least 55 bits: cut to 53 bits, or at \<open>2 ^ -1074\<close>\<close>
  "round_scaled neg a b e =
     round_cut neg a b e (nat (max (int (bitlen (a div b)) - 53) (- 1074 - e)))"

definition scale_bits :: "nat \<Rightarrow> nat \<Rightarrow> nat" where
  "scale_bits a b = (55 + bitlen b) - bitlen a"

definition round_ratio :: "bool \<Rightarrow> nat \<Rightarrow> nat \<Rightarrow> int \<Rightarrow> jsnum" where
  \<comment> \<open>the Number value of the real \<open>\<plusminus> a / b * 2 ^ e\<close>, for \<open>b > 0\<close>\<close>
  "round_ratio neg a b e =
     (if a = 0 then Fin 0 0
      else round_scaled neg (a * 2 ^ scale_bits a b) b (e - int (scale_bits a b)))"

definition js_of_int :: "int \<Rightarrow> jsnum" where
  "js_of_int i = round_ratio (i < 0) (nat \<bar>i\<bar>) 1 0"

definition js_div_int :: "int \<Rightarrow> nat \<Rightarrow> jsnum" where
  \<comment> \<open>\<^verbatim>\<open>i / b\<close> for an integer \<open>i\<close> and a positive integer constant \<open>b\<close>\<close>
  "js_div_int i b = round_ratio (i < 0) (nat \<bar>i\<bar>) b 0"

definition round_int :: "int \<Rightarrow> int \<Rightarrow> jsnum" where
  "round_int c e = round_ratio (c < 0) (nat \<bar>c\<bar>) 1 e"

definition add_fin :: "int \<Rightarrow> int \<Rightarrow> int \<Rightarrow> int \<Rightarrow> jsnum" where
  "add_fin a e b f =
     round_int (a * 2 ^ nat (e - min e f) + b * 2 ^ nat (f - min e f)) (min e f)"

fun js_add :: "jsnum \<Rightarrow> jsnum \<Rightarrow> jsnum" where
  "js_add NaN y = NaN"
| "js_add x NaN = NaN"
| "js_add PosInf NegInf = NaN"
| "js_add NegInf PosInf = NaN"
| "js_add PosInf y = PosInf"
| "js_add NegInf y = NegInf"
| "js_add x PosInf = PosInf"
| "js_add x NegInf = NegInf"
| "js_add (Fin a e) (Fin b f) = add_fin a e b f"

fun js_ge :: "jsnum \<Rightarrow> jsnum \<Rightarrow> bool" where
  "js_ge NaN y = False"
| "js_ge x NaN = False"
| "js_ge PosInf y = True"
| "js_ge x NegInf = True"
| "js_ge NegInf y = False"
| "js_ge x PosInf = False"
| "js_ge (Fin a e) (Fin b f) = (b * 2 ^ nat (f - min e f) \<le> a * 2 ^ nat (e - min e f))"

subsection \<open>Decimal strings\<close>

definition is_digit :: "char \<Rightarrow> bool" where
  "is_digit c = (48 \<le> (of_char c :: nat) \<and> (of_char c :: nat) \<le> 57)"

definition is_ws :: "char \<Rightarrow> bool" where
  \<comment> \<open>the white space of ASCII: space, tab, line feed, vertical tab, form feed, return\<close>
  "is_ws c = ((of_char c :: nat) = 32 \<or> (9 \<le> (of_char c :: nat) \<and> (of_char c :: nat) \<le> 13))"

definition digits_val :: "string \<Rightarrow> nat" where
  "digits_val ds = foldl (\<lambda>n c. 10 * n + (of_char c - 48)) 0 ds"

definition digit_char :: "nat \<Rightarrow> char" where
  "digit_char n = ''0123456789'' ! n"

fun nat_digits :: "nat \<Rightarrow> string" where
  "nat_digits n = (if n < 10 then [digit_char n] else nat_digits (n div 10) @ [digit_char (n mod 10)])"

declare nat_digits.simps [simp del]

definition show_int :: "int \<Rightarrow> string" where
  \<comment> \<open>how JavaScript renders an integer of magnitude below \<open>10 ^ 21\<close> in a string\<close>
  "show_int i = (if i < 0 then CHR ''-'' # nat_digits (nat (- i)) else nat_digits (nat i))"

definition join_pipe :: "string list \<Rightarrow> string" where
  \<comment> \<open>\<^verbatim>\<open>Array.prototype.join('|')\<close>\<close>
  "join_pipe xs = (case xs of [] \<Rightarrow> [] | y # ys \<Rightarrow> y @ concat (map (\<lambda>z. CHR ''|'' # z) ys))"

subsection \<open>parseFloat\<close>

text \<open>
  \<^verbatim>\<open>parseFloat\<close> skips leading white space and reads the longest prefix that is a
  decimal literal: an optional sign, then \<^verbatim>\<open>Infinity\<close> or digits with an optional
  fraction and an optional exponent. Without such a prefix the result is \<^verbatim>\<open>NaN\<close>.
\<close>

definition parse_sign :: "string \<Rightarrow> bool \<times> string" where
  "parse_sign t = (case t of [] \<Rightarrow> (False, t)
     | c # r \<Rightarrow> if c = CHR ''-'' then (True, r) else if c = CHR ''+'' then (False, r) else (False, t))"

definition parse_exponent :: "string \<Rightarrow> int" where
  "parse_exponent r = (case r of [] \<Rightarrow> 0
     | c # r1 \<Rightarrow> if c = CHR ''e'' \<or> c = CHR ''E''
         then (let (neg, r2) = parse_sign r1; ds = takeWhile is_digit r2
               in if ds = [] then 0 else if neg then - int (digits_val ds) else int (digits_val ds))
         else 0)"

definition decimal_value :: "bool \<Rightarrow> nat \<Rightarrow> int \<Rightarrow> jsnum" where
  \<comment> \<open>the Number value of \<open>\<plusminus> m * 10 ^ e\<close>\<close>
  "decimal_value neg m e =
     (if 0 \<le> e then round_ratio neg (m * 10 ^ nat e) 1 0
      else round_ratio neg m (10 ^ nat (- e)) 0)"

definition parse_unsigned :: "bool \<Rightarrow> string \<Rightarrow> jsnum" where
  "parse_unsigned neg u =
     (if take 8 u = ''Infinity'' then (if neg then NegInf else PosInf)
      else let ip = takeWhile is_digit u; r1 = dropWhile is_digit u;
               hasdot = (case r1 of [] \<Rightarrow> False | c # r \<Rightarrow> c = CHR ''.'');
               fp = (if hasdot then takeWhile is_digit (tl r1) else []);
               r2 = (if hasdot then dropWhile is_digit (tl r1) else r1)
           in if ip = [] \<and> fp = [] then NaN
              else decimal_value neg (digits_val (ip @ fp)) (parse_exponent r2 - int (length fp)))"

definition parseFloat :: "string \<Rightarrow> jsnum" where
  "parseFloat s = (case parse_sign (dropWhile is_ws s) of (neg, u) \<Rightarrow> parse_unsigned neg u)"

subsection \<open>toFixed(6)\<close>

text \<open>
  \<^verbatim>\<open>x.toFixed(6)\<close> takes the integer \<open>n\<close> for which \<open>n / 10 ^ 6\<close> is nearest to the
  magnitude of \<open>x\<close> (the larger one of two), and writes it with six digits after the
  point. From \<open>10 ^ 21\<close> on, and for \<^verbatim>\<open>NaN\<close> and the infinities, it gives the ordinary
  string of the number instead, which for such a magnitude is the shortest decimal that
  reads back as the same double, in exponent notation.
\<close>

definition point6 :: "string \<Rightarrow> string" where
  "point6 ds = take (length ds - 6) ds @ CHR ''.'' # drop (length ds - 6) ds"

definition fixed_digits :: "nat \<Rightarrow> string" where
  \<comment> \<open>the digits of \<open>n\<close>, filled with zeros to seven places, with the point before the
      last six\<close>
  "fixed_digits n = point6 (take (7 - length (nat_digits n)) ''0000000'' @ nat_digits n)"

definition reads_back :: "nat \<Rightarrow> nat \<Rightarrow> int \<Rightarrow> bool" where
  \<comment> \<open>the integer \<open>v\<close> reads back as the double \<open>m * 2 ^ e\<close>\<close>
  "reads_back v m e = (round_ratio False v 1 0 = mk_fin False m e)"

definition absdiff :: "nat \<Rightarrow> nat \<Rightarrow> nat" where
  "absdiff a b = (if a \<le> b then b - a else a - b)"

definition candidate :: "nat \<Rightarrow> int \<Rightarrow> nat \<Rightarrow> nat \<Rightarrow> nat \<Rightarrow> nat option" where
  \<comment> \<open>a \<open>k\<close>-digit decimal \<open>s * 10 ^ (p + 1 - k)\<close> that reads back as \<open>m * 2 ^ e\<close>, if there
      is one; \<open>x\<close> is the value \<open>m * 2 ^ e\<close> and \<open>p + 1\<close> the number of its digits\<close>
  "candidate m e x p k =
     (let sc = 10 ^ (p + 1 - k); lo = x div sc; hi = lo + 1;
          oklo = reads_back (lo * sc) m e; okhi = reads_back (hi * sc) m e
      in if oklo \<and> okhi then
           (if absdiff (lo * sc) x < absdiff (hi * sc) x then Some lo
            else if absdiff (hi * sc) x < absdiff (lo * sc) x then Some hi
            else if even lo then Some lo else Some hi)
         else if oklo then Some lo else if okhi then Some hi else None)"

fun shortest :: "nat \<Rightarrow> int \<Rightarrow> nat \<Rightarrow> nat \<Rightarrow> nat list \<Rightarrow> nat \<times> nat" where
  "shortest m e x p [] = (x div 10 ^ (p - 16), 17)"
| "shortest m e x p (k # ks) =
     (case candidate m e x p k of Some s \<Rightarrow> (s, k) | None \<Rightarrow> shortest m e x p ks)"

definition exp_string :: "nat \<Rightarrow> int \<Rightarrow> string" where
  \<comment> \<open>the string of a finite double \<open>m * 2 ^ e\<close> of magnitude at least \<open>10 ^ 21\<close>\<close>
  "exp_string m e =
     (let x = m * 2 ^ nat e; p = length (nat_digits x) - 1
      in case shortest m e x p [1, 2, 3, 4, 5, 6, 7, 8, 9, 10, 11, 12, 13, 14, 15, 16, 17] of
           (s, k) \<Rightarrow>
             (let p' = (if s = 10 ^ k then p + 1 else p);
                  ds = (if s = 10 ^ k then ''1'' else nat_digits s)
              in (if length ds = 1 then ds else hd ds # CHR ''.'' # tl ds) @ ''e+'' @ nat_digits p'))"

definition fixed_string :: "nat \<Rightarrow> int \<Rightarrow> string" where
  \<comment> \<open>for the magnitude \<open>m * 2 ^ e\<close>\<close>
  "fixed_string m e =
     (if 0 \<le> e then
        (if 10 ^ 21 \<le> m * 2 ^ nat e then exp_string m e
         else fixed_digits (m * 2 ^ nat e * 10 ^ 6))
      else fixed_digits ((2 * m * 10 ^ 6 + 2 ^ nat (- e)) div 2 ^ (nat (- e) + 1)))"

definition toFixed6 :: "jsnum \<Rightarrow> string" where
  "toFixed6 x = (case x of NaN \<Rightarrow> ''NaN'' | PosInf \<Rightarrow> ''Infinity'' | NegInf \<Rightarrow> ''-Infinity''
     | Fin i e \<Rightarrow> (if i < 0 then CHR ''-'' # fixed_string (nat (- i)) e
                   else fixed_string (nat i) e))"

subsection \<open>SHA-256\<close>

text \<open>
  \<^verbatim>\<open>createHash('sha256').update(payload).digest('hex')\<close>: FIPS 180-4 on the bytes of
  the string, with 32-bit words as naturals below \<open>2 ^ 32\<close> and the wrap-around written
  out, and the digest in lower-case hexadecimal.
\<close>

definition add32 :: "nat \<Rightarrow> nat \<Rightarrow> nat" where
  "add32 x y = (x + y) mod 4294967296"

definition rotr :: "nat \<Rightarrow> nat \<Rightarrow> nat" where
  "rotr n x = x div 2 ^ n + (x mod 2 ^ n) * 2 ^ (32 - n)"

text \<open>
  The round constants and the initial hash value of the standard, in decimal.
\<close>

definition sha_K :: "nat list" where
  "sha_K = [
  1116352408, 1899447441, 3049323471, 3921009573, 961987163, 1508970993, 2453635748, 2870763221,
  3624381080, 310598401, 607225278, 1426881987, 1925078388, 2162078206, 2614888103, 3248222580,
  3835390401, 4022224774, 264347078, 604807628, 770255983, 1249150122, 1555081692, 1996064986,
  2554220882, 2821834349, 2952996808, 3210313671, 3336571891, 3584528711, 113926993, 338241895,
  666307205, 773529912, 1294757372, 1396182291, 1695183700, 1986661051, 2177026350, 2456956037,
  2730485921, 2820302411, 3259730800, 3345764771, 3516065817, 3600352804, 4094571909, 275423344,
  430227734, 506948616, 659060556, 883997877, 958139571, 1322822218, 1537002063, 1747873779,
  1955562222, 2024104815, 2227730452, 2361852424, 2428436474, 2756734187, 3204031479, 3329325298]"

definition sha_H0 :: "nat list" where
  "sha_H0 = [1779033703, 3144134277, 1013904242, 2773480762,
             1359893119, 2600822924, 528734635, 1541459225]"

definition ssig0 :: "nat \<Rightarrow> nat" where
  "ssig0 x = rotr 7 x XOR rotr 18 x XOR x div 2 ^ 3"

definition ssig1 :: "nat \<Rightarrow> nat" where
  "ssig1 x = rotr 17 x XOR rotr 19 x XOR x div 2 ^ 10"

definition bsig0 :: "nat \<Rightarrow> nat" where
  "bsig0 x = rotr 2 x XOR rotr 13 x XOR rotr 22 x"

definition bsig1 :: "nat \<Rightarrow> nat" where
  "bsig1 x = rotr 6 x XOR rotr 11 x XOR rotr 25 x"

definition ch :: "nat \<Rightarrow> nat \<Rightarrow> nat \<Rightarrow> nat" where
  "ch e f g = (e AND f) XOR ((4294967295 - e) AND g)"

definition maj :: "nat \<Rightarrow> nat \<Rightarrow> nat \<Rightarrow> nat" where
  "maj a b c = (a AND b) XOR (a AND c) XOR (b AND c)"

fun next_win :: "nat list \<Rightarrow> nat list" where
  "next_win [w0, w1, w2, w3, w4, w5, w6, w7, w8, w9, w10, w11, w12, w13, w14, w15] =
     [w1, w2, w3, w4, w5, w6, w7, w8, w9, w10, w11, w12, w13, w14, w15,
      add32 (add32 (ssig1 w14) w9) (add32 (ssig0 w1) w0)]"
| "next_win ws = ws"

fun shuffle :: "nat \<Rightarrow> nat \<Rightarrow> nat list \<Rightarrow> nat list" where
  "shuffle t1 t2 [a, b, c, d, e, f, g, h] = [add32 t1 t2, a, b, c, add32 d t1, e, f, g]"
| "shuffle t1 t2 st = st"

fun round_step :: "nat \<Rightarrow> nat \<Rightarrow> nat list \<Rightarrow> nat list" where
  "round_step k w [a, b, c, d, e, f, g, h] =
     shuffle (add32 (add32 (add32 h (bsig1 e)) (add32 (ch e f g) k)) w)
             (add32 (bsig0 a) (maj a b c)) [a, b, c, d, e, f, g, h]"
| "round_step k w st = st"

text \<open>
  The sixteen-word window holds the message schedule from the current round on; each
  round consumes its head and appends the schedule word sixteen places ahead.
\<close>

fun rounds :: "nat list \<Rightarrow> nat list \<Rightarrow> nat list \<Rightarrow> nat list" where
  "rounds [] win st = st"
| "rounds (k # ks) win st = rounds ks (next_win win) (round_step k (hd win) st)"

fun be32 :: "nat list \<Rightarrow> nat list" where
  "be32 (a # b # c # d # r) = (((a * 256 + b) * 256 + c) * 256 + d) # be32 r"
| "be32 r = []"

definition compress :: "nat list \<Rightarrow> nat list \<Rightarrow> nat list" where
  "compress hs blk = map2 add32 hs (rounds sha_K (be32 blk) hs)"

fun zeros :: "nat \<Rightarrow> nat list" where
  "zeros n = (if n = 0 then [] else 0 # zeros (n - 1))"

declare zeros.simps [simp del]

definition be_bytes8 :: "nat \<Rightarrow> nat list" where
  "be_bytes8 n = map (\<lambda>i. (n div 256 ^ i) mod 256) [7, 6, 5, 4, 3, 2, 1, 0]"

definition pad :: "nat list \<Rightarrow> nat list" where
  "pad m = m @ [128] @ zeros ((119 - length m mod 64) mod 64) @ be_bytes8 (8 * length m)"

fun blocks :: "nat list \<Rightarrow> nat list list" where
  "blocks [] = []"
| "blocks (b # bs) = take 64 (b # bs) # blocks (drop 64 (b # bs))"

definition hexdigit :: "nat \<Rightarrow> char" where
  "hexdigit n = ''0123456789abcdef'' ! n"

definition hex32 :: "nat \<Rightarrow> string" where
  "hex32 w = map (\<lambda>i. hexdigit ((w div 16 ^ i) mod 16)) [7, 6, 5, 4, 3, 2, 1, 0]"

definition sha256_hex :: "string \<Rightarrow> string" where
  "sha256_hex s = concat (map hex32 (foldl compress sha_H0 (blocks (pad (map of_char s)))))"

section \<open>Data model\<close>

text \<open>
  The types of \<^verbatim>\<open>packages/shared/src/x402/types.ts\<close>. Field names carry a prefix
  for their record. Times are milliseconds since the epoch, as integers. The optional
  \<^verbatim>\<open>metadata\<close> of an authorization and \<^verbatim>\<open>evidence\<close> of a dispute are free-form
  attachments that no operation reads; they are left out.
\<close>

datatype AuthorizationStatus = Pending | Validated | Settled | Disputed | Expired

record PaymentAuthorization =
  a_id :: string
  a_agentAddress :: string
  a_merchantAddress :: string
  a_toolName :: string
  a_amount :: string
  a_currency :: string
  a_timestamp :: int
  a_expiresAt :: int
  a_signature :: string
  a_nonce :: string
  a_status :: AuthorizationStatus
  a_dataHash :: "string option"

datatype BatchStatus = BPending | BProcessing | BCompleted | BFailed

text \<open>
  The \<^verbatim>\<open>authorizations\<close> array of a batch holds references to the authorization
  objects of the store, not copies: a status written through the batch is seen in the
  store. An object is stored under its id once and never replaced or removed, so a
  reference is modelled by the key under which the object is stored.
\<close>

record SettlementBatch =
  b_id :: string
  b_agentAddress :: string
  b_merchantAddress :: string
  b_authorizations :: "string list"
  b_totalAmount :: string
  b_currency :: string
  b_status :: BatchStatus
  b_createdAt :: int
  b_settledAt :: "int option"
  b_transactionSignature :: "string option"
  b_error :: "string option"

datatype DisputeStatus = DPending | DInvestigating | DResolved | DRejected

record DisputeRecord =
  d_id :: string
  d_authorizationId :: string
  d_agentAddress :: string
  d_merchantAddress :: string
  d_reason :: string
  d_status :: DisputeStatus
  d_createdAt :: int
  d_resolvedAt :: "int option"
  d_resolution :: "string option"

record SettlementThreshold =
  amountThreshold :: string
  timeThreshold :: int
  countThreshold :: int

record AgentUsage =
  u_authorizations :: "string list"
  u_totalAmount :: jsnum
  u_firstRequestAt :: int
  u_lastRequestAt :: int
  u_requestCount :: nat

text \<open>
  The private fields of \<^verbatim>\<open>FacilitatorService\<close>. The authorization store is a
  JavaScript object used as a dictionary; \<^verbatim>\<open>Object.values\<close> enumerates it, so it is an
  association list in insertion order, looked up with \<open>map_of\<close>. Keys are taken to be
  ordinary ids (not the names of members that every JavaScript object inherits, such as
  \<^verbatim>\<open>constructor\<close>).
\<close>

record FacilitatorState =
  authorizations :: "(string \<times> PaymentAuthorization) list"
  agentUsage :: "string \<rightharpoonup> AgentUsage"
  settlementQueue :: "string list"
  settlementBatches :: "SettlementBatch list"
  disputes :: "DisputeRecord list"
  settlementThresholds :: SettlementThreshold

definition new_facilitator :: "SettlementThreshold \<Rightarrow> FacilitatorState" where
  "new_facilitator th = \<lparr>authorizations = [], agentUsage = Map.empty, settlementQueue = [],
     settlementBatches = [], disputes = [], settlementThresholds = th\<rparr>"

definition getAuthorization :: "FacilitatorState \<Rightarrow> string \<Rightarrow> PaymentAuthorization option" where
  "getAuthorization s k = map_of (authorizations s) k"

fun map_entry :: "string \<Rightarrow> ('v \<Rightarrow> 'v) \<Rightarrow> (string \<times> 'v) list \<Rightarrow> (string \<times> 'v) list" where
  "map_entry k f [] = []"
| "map_entry k f (p # ps) = (if fst p = k then (fst p, f (snd p)) # ps else p # map_entry k f ps)"

definition set_status :: "string \<Rightarrow> AuthorizationStatus \<Rightarrow> FacilitatorState \<Rightarrow> FacilitatorState" where
  \<comment> \<open>\<^verbatim>\<open>auth.status = st\<close> on the object stored under \<open>k\<close>\<close>
  "set_status k st s = s\<lparr>authorizations := map_entry k (\<lambda>a. a\<lparr>a_status := st\<rparr>) (authorizations s)\<rparr>"

definition dequeue :: "string \<Rightarrow> FacilitatorState \<Rightarrow> FacilitatorState" where
  \<comment> \<open>\<^verbatim>\<open>indexOf\<close> then \<^verbatim>\<open>splice(index, 1)\<close>: the first occurrence goes, if there is one\<close>
  "dequeue k s = s\<lparr>settlementQueue := remove1 k (settlementQueue s)\<rparr>"

fun update_first :: "('a \<Rightarrow> bool) \<Rightarrow> ('a \<Rightarrow> 'a) \<Rightarrow> 'a list \<Rightarrow> 'a list" where
  \<comment> \<open>a write to the object that \<^verbatim>\<open>Array.prototype.find\<close> returned\<close>
  "update_first P f [] = []"
| "update_first P f (x # xs) = (if P x then f x # xs else x # update_first P f xs)"

section \<open>FacilitatorService\<close>

text \<open>
  Each operation takes the state and the reading \<open>now\<close> of \<^verbatim>\<open>Date.now()\<close> and returns
  its result with the new state. An operation reads the clock up to four times; the
  readings of one call are taken to be equal.
\<close>

subsection \<open>verifyAuthorization\<close>

definition signaturePayload :: "PaymentAuthorization \<Rightarrow> string" where
  "signaturePayload a = join_pipe [a_id a, a_agentAddress a, a_merchantAddress a, a_amount a,
     a_currency a, show_int (a_timestamp a), show_int (a_expiresAt a), a_nonce a]"

definition verifySignature :: "PaymentAuthorization \<Rightarrow> bool" where
  "verifySignature a = (sha256_hex (signaturePayload a) = a_signature a)"

definition trackAgentUsage :: "int \<Rightarrow> PaymentAuthorization \<Rightarrow> FacilitatorState \<Rightarrow> FacilitatorState" where
  "trackAgentUsage now a s =
     (let usage = (case agentUsage s (a_agentAddress a) of
                     None \<Rightarrow> \<lparr>u_authorizations = [], u_totalAmount = Fin 0 0, u_firstRequestAt = now,
                              u_lastRequestAt = now, u_requestCount = 0\<rparr>
                   | Some u \<Rightarrow> u)
      in s\<lparr>agentUsage := (agentUsage s)(a_agentAddress a \<mapsto>
            usage\<lparr>u_authorizations := u_authorizations usage @ [a_id a],
                  u_totalAmount := js_add (u_totalAmount usage) (parseFloat (a_amount a)),
                  u_lastRequestAt := now,
                  u_requestCount := u_requestCount usage + 1\<rparr>)\<rparr>)"

record VerifyResult =
  valid :: bool
  v_reason :: "string option"

definition verifyAuthorization ::
  "int \<Rightarrow> PaymentAuthorization \<Rightarrow> FacilitatorState \<Rightarrow> VerifyResult \<times> FacilitatorState" where
  "verifyAuthorization now a s =
     (if getAuthorization s (a_id a) \<noteq> None then
        (\<lparr>valid = False, v_reason = Some ''Authorization already exists''\<rparr>, s)
      else if a_expiresAt a < now then
        (\<lparr>valid = False, v_reason = Some ''Authorization expired''\<rparr>, s)
      else if \<not> verifySignature a then
        (\<lparr>valid = False, v_reason = Some ''Invalid signature''\<rparr>, s)
      else (\<lparr>valid = True, v_reason = None\<rparr>,
            trackAgentUsage now a (s\<lparr>authorizations := authorizations s @ [(a_id a, a)]\<rparr>)))"

subsection \<open>Thresholds and queueForSettlement\<close>

definition queuedAuthorizations :: "FacilitatorState \<Rightarrow> string \<Rightarrow> string list" where
  \<comment> \<open>\<^verbatim>\<open>settlementQueue.map(id => authorizations[id]).filter(auth => auth && auth.agentAddress === agentAddress)\<close>,
      as references\<close>
  "queuedAuthorizations s agent =
     filter (\<lambda>k. case getAuthorization s k of None \<Rightarrow> False | Some a \<Rightarrow> a_agentAddress a = agent)
       (settlementQueue s)"

definition amount_of :: "FacilitatorState \<Rightarrow> string \<Rightarrow> jsnum" where
  \<comment> \<open>\<^verbatim>\<open>parseFloat(auth.amount)\<close> through a reference\<close>
  "amount_of s k = (case getAuthorization s k of None \<Rightarrow> NaN | Some a \<Rightarrow> parseFloat (a_amount a))"

definition sum_amounts :: "jsnum list \<Rightarrow> jsnum" where
  \<comment> \<open>\<^verbatim>\<open>reduce((sum, auth) => sum + parseFloat(auth.amount), 0)\<close>\<close>
  "sum_amounts xs = foldl js_add (Fin 0 0) xs"

definition meetsThresholds :: "SettlementThreshold \<Rightarrow> int \<Rightarrow> jsnum list \<Rightarrow> int \<Rightarrow> bool" where
  \<comment> \<open>the three comparisons shared by both threshold checks, on the parsed amounts of the
      authorizations counted and on \<^verbatim>\<open>usage.firstRequestAt\<close>\<close>
  "meetsThresholds th now amounts firstRequestAt =
     (let meetsAmount = js_ge (sum_amounts amounts) (parseFloat (amountThreshold th));
          meetsTime = js_ge (js_div_int (now - firstRequestAt) 1000) (js_of_int (timeThreshold th));
          meetsCount = (countThreshold th \<le> int (length amounts))
      in meetsAmount \<or> meetsTime \<or> meetsCount)"

definition checkSettlementThresholds :: "int \<Rightarrow> string \<Rightarrow> FacilitatorState \<Rightarrow> bool" where
  "checkSettlementThresholds now agent s =
     (case agentUsage s agent of None \<Rightarrow> False
      | Some usage \<Rightarrow>
          meetsThresholds (settlementThresholds s) now
            (map (amount_of s) (queuedAuthorizations s agent)) (u_firstRequestAt usage))"

record QueueResult =
  success :: bool
  shouldSettle :: bool
  q_reason :: "string option"

definition queueForSettlement ::
  "int \<Rightarrow> string \<Rightarrow> FacilitatorState \<Rightarrow> QueueResult \<times> FacilitatorState" where
  "queueForSettlement now k s =
     (case getAuthorization s k of
        None \<Rightarrow> (\<lparr>success = False, shouldSettle = False, q_reason = Some ''Authorization not found''\<rparr>, s)
      | Some a \<Rightarrow>
          if k \<in> set (settlementQueue s) then
            (\<lparr>success = False, shouldSettle = False, q_reason = Some ''Already queued''\<rparr>, s)
          else if a_status a = Settled then
            (\<lparr>success = False, shouldSettle = False, q_reason = Some ''Already settled''\<rparr>, s)
          else
            (let s' = set_status k Validated (s\<lparr>settlementQueue := settlementQueue s @ [k]\<rparr>);
                 fire = checkSettlementThresholds now (a_agentAddress a) s'
             in (\<lparr>success = True, shouldSettle = fire,
                  q_reason = (if fire then Some ''Settlement threshold met'' else None)\<rparr>, s')))"

definition listPendingAuthorizations :: "FacilitatorState \<Rightarrow> string \<Rightarrow> PaymentAuthorization list" where
  "listPendingAuthorizations s agent =
     filter (\<lambda>a. a_agentAddress a = agent \<and> a_status a = Validated \<and> a_id a \<in> set (settlementQueue s))
       (map snd (authorizations s))"

definition getAgentUsage :: "FacilitatorState \<Rightarrow> string \<Rightarrow> AgentUsage" where
  "getAgentUsage s agent = (case agentUsage s agent of
       None \<Rightarrow> \<lparr>u_authorizations = [], u_totalAmount = Fin 0 0, u_firstRequestAt = 0,
                u_lastRequestAt = 0, u_requestCount = 0\<rparr>
     | Some u \<Rightarrow> u)"

subsection \<open>createSettlementBatch\<close>

text \<open>
  Without a merchant (the parameter is absent or the empty string, both falsy), the
  merchant with the most queued authorizations of the agent is taken: merchants are
  counted in a \<^verbatim>\<open>Map\<close>, which is enumerated in the order of first insertion, and a
  merchant replaces the choice only with a strictly greater count.
\<close>

fun first_occurrences :: "string list \<Rightarrow> string list" where
  "first_occurrences [] = []"
| "first_occurrences (x # xs) = x # filter (\<lambda>y. y \<noteq> x) (first_occurrences xs)"

fun most_frequent :: "string list \<Rightarrow> string list \<Rightarrow> nat \<Rightarrow> string option \<Rightarrow> string option" where
  "most_frequent all [] maxCount chosen = chosen"
| "most_frequent all (m # ms) maxCount chosen =
     (if maxCount < count_list all m then most_frequent all ms (count_list all m) (Some m)
      else most_frequent all ms maxCount chosen)"

definition merchant_of :: "FacilitatorState \<Rightarrow> string \<Rightarrow> string option" where
  "merchant_of s k = map_option a_merchantAddress (getAuthorization s k)"

definition chooseMerchant :: "FacilitatorState \<Rightarrow> string list \<Rightarrow> string option \<Rightarrow> string option" where
  "chooseMerchant s refs merchantAddress =
     (if merchantAddress = None \<or> merchantAddress = Some []
      then (let ms = List.map_filter (merchant_of s) refs
            in most_frequent ms (first_occurrences ms) 0 merchantAddress)
      else merchantAddress)"

definition batchId :: "int \<Rightarrow> string \<Rightarrow> string" where
  \<comment> \<open>\<^verbatim>\<open>`batch_${Date.now()}_${agentAddress.substring(0, 8)}`\<close>\<close>
  "batchId now agent = ''batch_'' @ show_int now @ ''_'' @ take 8 agent"

definition createSettlementBatch ::
  "int \<Rightarrow> string \<Rightarrow> string option \<Rightarrow> FacilitatorState \<Rightarrow> SettlementBatch option \<times> FacilitatorState" where
  "createSettlementBatch now agent merchantAddress s =
     (let agentAuthorizations = queuedAuthorizations s agent
      in if agentAuthorizations = [] then (None, s)
         else (case chooseMerchant s agentAuthorizations merchantAddress of
                 None \<Rightarrow> (None, s)
               | Some merchant \<Rightarrow>
                   (let members = filter (\<lambda>k. merchant_of s k = Some merchant) agentAuthorizations
                    in case members of
                         [] \<Rightarrow> (None, s)
                       | k0 # ks \<Rightarrow>
                           (let batch = \<lparr>b_id = batchId now agent,
                                         b_agentAddress = agent,
                                         b_merchantAddress = merchant,
                                         b_authorizations = members,
                                         b_totalAmount = toFixed6 (sum_amounts (map (amount_of s) members)),
                                         b_currency = (case getAuthorization s k0 of
                                                         None \<Rightarrow> [] | Some a \<Rightarrow> a_currency a),
                                         b_status = BPending,
                                         b_createdAt = now,
                                         b_settledAt = None,
                                         b_transactionSignature = None,
                                         b_error = None\<rparr>
                            in (Some batch, s\<lparr>settlementBatches := settlementBatches s @ [batch]\<rparr>)))))"

subsection \<open>completeSettlement and failSettlement\<close>

datatype error = BatchNotFound | AuthorizationNotFound | AgentMismatch | DisputeNotFound


definition settle_member :: "FacilitatorState \<Rightarrow> string \<Rightarrow> FacilitatorState" where
  "settle_member s k = dequeue k (set_status k Settled s)"

definition completeSettlement ::
  "int \<Rightarrow> string \<Rightarrow> string \<Rightarrow> FacilitatorState \<Rightarrow> error + FacilitatorState" where
  "completeSettlement now bid transactionSignature s =
     (case find (\<lambda>b. b_id b = bid) (settlementBatches s) of
        None \<Rightarrow> Inl BatchNotFound
      | Some batch \<Rightarrow>
          Inr (foldl settle_member
                (s\<lparr>settlementBatches := update_first (\<lambda>b. b_id b = bid)
                      (\<lambda>b. b\<lparr>b_status := BCompleted, b_settledAt := Some now,
                             b_transactionSignature := Some transactionSignature\<rparr>)
                      (settlementBatches s)\<rparr>)
                (b_authorizations batch)))"

definition failSettlement ::
  "string \<Rightarrow> string \<Rightarrow> FacilitatorState \<Rightarrow> error + FacilitatorState" where
  "failSettlement bid err s =
     (case find (\<lambda>b. b_id b = bid) (settlementBatches s) of
        None \<Rightarrow> Inl BatchNotFound
      | Some batch \<Rightarrow>
          Inr (foldl (\<lambda>t k. set_status k Pending t)
                (s\<lparr>settlementBatches := update_first (\<lambda>b. b_id b = bid)
                      (\<lambda>b. b\<lparr>b_status := BFailed, b_error := Some err\<rparr>)
                      (settlementBatches s)\<rparr>)
                (b_authorizations batch)))"

subsection \<open>Disputes\<close>

definition disputeId :: "int \<Rightarrow> string \<Rightarrow> string" where
  \<comment> \<open>\<^verbatim>\<open>`dispute_${Date.now()}_${params.authorizationId}`\<close>\<close>
  "disputeId now k = ''dispute_'' @ show_int now @ ''_'' @ k"

definition createDispute ::
  "int \<Rightarrow> string \<Rightarrow> string \<Rightarrow> string \<Rightarrow> FacilitatorState \<Rightarrow> error + DisputeRecord \<times> FacilitatorState" where
  "createDispute now authorizationId agentAddress reason s =
     (case getAuthorization s authorizationId of
        None \<Rightarrow> Inl AuthorizationNotFound
      | Some a \<Rightarrow>
          if a_agentAddress a \<noteq> agentAddress then Inl AgentMismatch
          else (let dispute = \<lparr>d_id = disputeId now authorizationId,
                                d_authorizationId = authorizationId,
                                d_agentAddress = agentAddress,
                                d_merchantAddress = a_merchantAddress a,
                                d_reason = reason,
                                d_status = DPending,
                                d_createdAt = now,
                                d_resolvedAt = None,
                                d_resolution = None\<rparr>
                in Inr (dispute,
                        dequeue authorizationId
                          (set_status authorizationId Disputed
                            (s\<lparr>disputes := disputes s @ [dispute]\<rparr>)))))"

datatype Resolution = Approved | Rejected

definition resolveDispute ::
  "int \<Rightarrow> string \<Rightarrow> Resolution \<Rightarrow> string option \<Rightarrow> FacilitatorState \<Rightarrow> error + FacilitatorState" where
  "resolveDispute now did resolution resolutionNote s =
     (case find (\<lambda>d. d_id d = did) (disputes s) of
        None \<Rightarrow> Inl DisputeNotFound
      | Some dispute \<Rightarrow>
          (let s1 = s\<lparr>disputes := update_first (\<lambda>d. d_id d = did)
                          (\<lambda>d. d\<lparr>d_status := DResolved, d_resolvedAt := Some now,
                                 d_resolution := resolutionNote\<rparr>)
                          (disputes s)\<rparr>
           in case getAuthorization s1 (d_authorizationId dispute) of
                None \<Rightarrow> Inr s1
              | Some a \<Rightarrow>
                  if resolution = Rejected then
                    Inr ((set_status (d_authorizationId dispute) Validated s1)
                           \<lparr>settlementQueue := settlementQueue s1 @ [a_id a]\<rparr>)
                  else Inr (set_status (d_authorizationId dispute) Disputed s1)))"

subsection \<open>cleanupExpired\<close>

definition expire_entry :: "int \<Rightarrow> (string \<times> PaymentAuthorization) \<Rightarrow> bool" where
  "expire_entry now p = (a_expiresAt (snd p) < now \<and> a_status (snd p) = Pending)"

definition cleanupExpired :: "int \<Rightarrow> FacilitatorState \<Rightarrow> nat \<times> FacilitatorState" where
  "cleanupExpired now s =
     (let hit = filter (expire_entry now) (authorizations s)
      in (length hit,
          s\<lparr>authorizations := map (\<lambda>p. if expire_entry now p
                                          then (fst p, (snd p)\<lparr>a_status := Expired\<rparr>) else p)
                                 (authorizations s),
            settlementQueue := foldl (\<lambda>q p. remove1 (a_id (snd p)) q) (settlementQueue s) hit\<rparr>))"

section \<open>SettlementService\<close>

definition checkThresholds ::
  "SettlementThreshold \<Rightarrow> int \<Rightarrow> PaymentAuthorization list \<Rightarrow> AgentUsage \<Rightarrow> bool" where
  "checkThresholds th now auths usage =
     meetsThresholds th now (map (\<lambda>a. parseFloat (a_amount a)) auths) (u_firstRequestAt usage)"

definition scheduler_check :: "int \<Rightarrow> string \<Rightarrow> string \<Rightarrow> FacilitatorState \<Rightarrow> bool" where
  \<comment> \<open>the test that \<^verbatim>\<open>checkAndTriggerSettlements\<close> makes for one agent and merchant\<close>
  "scheduler_check now agent merchant s =
     (let pendingAuths = filter (\<lambda>a. a_merchantAddress a = merchant) (listPendingAuthorizations s agent)
      in pendingAuths \<noteq> [] \<and>
         checkThresholds (settlementThresholds s) now pendingAuths (getAgentUsage s agent))"

section \<open>Runs of the service\<close>

text \<open>
  A call of the public interface, with the reading of the clock at which it is made. A
  call that throws leaves the state as it was: every \<^verbatim>\<open>throw\<close> of the service stands
  before its first write.
\<close>

datatype call =
    Verify PaymentAuthorization
  | Queue string
  | CreateBatch string "string option"
  | Complete string string
  | Fail string string
  | CreateDispute string string string
  | Resolve string Resolution "string option"
  | Cleanup

fun step :: "FacilitatorState \<Rightarrow> int \<times> call \<Rightarrow> FacilitatorState" where
  "step s (now, Verify a) = snd (verifyAuthorization now a s)"
| "step s (now, Queue k) = snd (queueForSettlement now k s)"
| "step s (now, CreateBatch agent merchant) = snd (createSettlementBatch now agent merchant s)"
| "step s (now, Complete bid tx) = (case completeSettlement now bid tx s of Inl e \<Rightarrow> s | Inr s' \<Rightarrow> s')"
| "step s (now, Fail bid err) = (case failSettlement bid err s of Inl e \<Rightarrow> s | Inr s' \<Rightarrow> s')"
| "step s (now, CreateDispute k agent reason) =
     (case createDispute now k agent reason s of Inl e \<Rightarrow> s | Inr r \<Rightarrow> snd r)"
| "step s (now, Resolve did res note) =
     (case resolveDispute now did res note s of Inl e \<Rightarrow> s | Inr s' \<Rightarrow> s')"
| "step s (now, Cleanup) = snd (cleanupExpired now s)"

definition run :: "FacilitatorState \<Rightarrow> (int \<times> call) list \<Rightarrow> FacilitatorState" where
  "run s cs = foldl step s cs"

fun admitted :: "(FacilitatorState \<Rightarrow> call \<Rightarrow> bool) \<Rightarrow> FacilitatorState \<Rightarrow> (int \<times> call) list \<Rightarrow> bool" where
  \<comment> \<open>every call of the run satisfies \<open>ok\<close> in the state in which it is made\<close>
  "admitted ok s [] = True"
| "admitted ok s (c # cs) = (ok s (snd c) \<and> admitted ok (step s c) cs)"

section \<open>Properties of states and runs\<close>




definition th0 :: SettlementThreshold where
  "th0 = \<lparr>amountThreshold = ''1.00'', timeThreshold = 3600, countThreshold = 100\<rparr>"

definition mk_auth :: "string \<Rightarrow> string \<Rightarrow> string \<Rightarrow> string \<Rightarrow> string \<Rightarrow> string \<Rightarrow> string \<Rightarrow> PaymentAuthorization" where
  "mk_auth i agent merchant amount currency nonce sg =
     \<lparr>a_id = i, a_agentAddress = agent, a_merchantAddress = merchant, a_toolName = ''tool'',
      a_amount = amount, a_currency = currency, a_timestamp = 1000, a_expiresAt = 5000,
      a_signature = sg, a_nonce = nonce, a_status = Pending, a_dataHash = None\<rparr>"

definition auth1 :: PaymentAuthorization where
  "auth1 = mk_auth ''a1'' ''agent-0001'' ''m1'' ''0.6'' ''USDC'' ''n1''
     ''b79a3e097fdc35e85718102027a1fc7b92ef00856c695d50df2cc66f10535caa''"

definition auth2 :: PaymentAuthorization where
  "auth2 = mk_auth ''a2'' ''agent-0001'' ''m1'' ''0.5'' ''USDC'' ''n2''
     ''5cb921da494c4eeb16425dff551e1d899b2b798117d2661f40091f96e273452b''"

definition auth3 :: PaymentAuthorization where
  "auth3 = mk_auth ''a3'' ''agent-0001'' ''m1'' ''0.5'' ''SOL'' ''n3''
     ''2540b90a97e4b3fdbdfffd6381f42ae779fe45beb007cacd572ba316880b8266''"

definition auth4 :: PaymentAuthorization where
  "auth4 = mk_auth ''a4'' ''agent-0001'' ''m2'' ''0.5'' ''USDC'' ''n4''
     ''acae3b07eaae49b9939609a6734dd33248f8758169864b81954bef42f631b0d2''"


definition st_disputed :: FacilitatorState where
  "st_disputed = run (new_facilitator th0)
     [(1000, Verify auth1), (1001, CreateDispute ''a1'' ''agent-0001'' ''Data quality issue'')]"

definition dispute_free_queue :: "FacilitatorState \<Rightarrow> bool" where
  "dispute_free_queue s = (\<forall>d \<in> set (disputes s). d_authorizationId d \<notin> set (settlementQueue s))"

definition dispute_respecting :: "FacilitatorState \<Rightarrow> call \<Rightarrow> bool" where
  "dispute_respecting s c = (case c of
       Queue k \<Rightarrow> k \<notin> set (map d_authorizationId (disputes s))
     | Resolve did r rnote \<Rightarrow> r = Approved
     | _ \<Rightarrow> True)"

definition inv7 :: "FacilitatorState \<Rightarrow> bool" where
  "inv7 s = (distinct (settlementQueue s) \<and> dispute_free_queue s)"

definition settled_in_completed :: "FacilitatorState \<Rightarrow> bool" where
  "settled_in_completed s =
     (\<forall>k a. getAuthorization s k = Some a \<longrightarrow> a_status a = Settled \<longrightarrow>
        (\<exists>b \<in> set (settlementBatches s). b_status b = BCompleted \<and> k \<in> set (b_authorizations b)))"

definition submitted_pending :: "FacilitatorState \<Rightarrow> call \<Rightarrow> bool" where
  "submitted_pending s c = (case c of Verify a \<Rightarrow> a_status a = Pending | _ \<Rightarrow> True)"


definition st_requeued :: FacilitatorState where
  "st_requeued = run (new_facilitator th0)
     [(1000, Verify auth1), (1001, CreateDispute ''a1'' ''agent-0001'' ''Data quality issue''),
      (1002, Queue ''a1'')]"

definition st_twice :: FacilitatorState where
  "st_twice = run (new_facilitator th0)
     [(1000, Verify auth1), (1001, Queue ''a1''), (1002, CreateBatch ''agent-0001'' None),
      (1003, CreateBatch ''agent-0001'' None), (1004, Complete ''batch_1002_agent-00'' ''tx1''),
      (1005, Complete ''batch_1003_agent-00'' ''tx2'')]"






subsection \<open>The threshold policy of the specification\<close>



section \<open>Auxiliary lemmas\<close>

lemma map_of_map_entry:
  "map_of (map_entry k f ps) k' = (if k' = k then map_option f (map_of ps k) else map_of ps k')"
  by (induction ps) auto

lemma getAuthorization_set_status:
  "getAuthorization (set_status k st s) k' =
     (if k' = k then map_option (\<lambda>a. a\<lparr>a_status := st\<rparr>) (getAuthorization s k)
      else getAuthorization s k')"
  by (simp add: getAuthorization_def set_status_def map_of_map_entry)

lemma set_status_fields [simp]:
  "settlementQueue (set_status k st s) = settlementQueue s"
  "settlementBatches (set_status k st s) = settlementBatches s"
  "disputes (set_status k st s) = disputes s"
  "agentUsage (set_status k st s) = agentUsage s"
  "settlementThresholds (set_status k st s) = settlementThresholds s"
  by (simp_all add: set_status_def)

lemma dequeue_fields [simp]:
  "settlementQueue (dequeue k s) = remove1 k (settlementQueue s)"
  "authorizations (dequeue k s) = authorizations s"
  "settlementBatches (dequeue k s) = settlementBatches s"
  "disputes (dequeue k s) = disputes s"
  "agentUsage (dequeue k s) = agentUsage s"
  "settlementThresholds (dequeue k s) = settlementThresholds s"
  "getAuthorization (dequeue k s) = getAuthorization s"
  by (simp_all add: dequeue_def getAuthorization_def fun_eq_iff)

lemma getAuthorization_queue_upd [simp]:
  "getAuthorization (s\<lparr>settlementQueue := q\<rparr>) = getAuthorization s"
  "getAuthorization (s\<lparr>settlementBatches := b\<rparr>) = getAuthorization s"
  "getAuthorization (s\<lparr>disputes := d\<rparr>) = getAuthorization s"
  "getAuthorization (s\<lparr>agentUsage := u\<rparr>) = getAuthorization s"
  by (simp_all add: getAuthorization_def fun_eq_iff)

lemma find_update_first:
  "find P xs = Some x \<Longrightarrow> P (f x) \<Longrightarrow> find P (update_first P f xs) = Some (f x)"
  by (induction xs) (auto split: if_splits)

lemma run_Nil [simp]: "run s [] = s"
  by (simp add: run_def)

lemma run_Cons [simp]: "run s (c # cs) = run (step s c) cs"
  by (simp add: run_def)

lemma admitted_invariant:
  assumes pres: "\<And>s c. I s \<Longrightarrow> ok s (snd c) \<Longrightarrow> I (step s c)"
  shows "I s \<Longrightarrow> admitted ok s cs \<Longrightarrow> I (run s cs)"
  by (induction cs arbitrary: s) (auto intro: pres)

lemma map_of_snoc:
  "map_of (ps @ [(k, v)]) k' = (case map_of ps k' of Some w \<Rightarrow> Some w | None \<Rightarrow> if k' = k then Some v else None)"
  by (induction ps) (auto simp del: map_of_append)

lemma trackAgentUsage_fields [simp]:
  "authorizations (trackAgentUsage now a s) = authorizations s"
  "settlementQueue (trackAgentUsage now a s) = settlementQueue s"
  "settlementBatches (trackAgentUsage now a s) = settlementBatches s"
  "disputes (trackAgentUsage now a s) = disputes s"
  "settlementThresholds (trackAgentUsage now a s) = settlementThresholds s"
  "getAuthorization (trackAgentUsage now a s) = getAuthorization s"
  by (simp_all add: trackAgentUsage_def Let_def getAuthorization_def fun_eq_iff)

lemma verify_state:
  "snd (verifyAuthorization now a s) = s \<or>
   (getAuthorization s (a_id a) = None \<and>
    snd (verifyAuthorization now a s) =
      trackAgentUsage now a (s\<lparr>authorizations := authorizations s @ [(a_id a, a)]\<rparr>))"
  by (simp add: verifyAuthorization_def)

lemma getAuthorization_snoc:
  "getAuthorization (s\<lparr>authorizations := authorizations s @ [(k, v)]\<rparr>) k' =
     (case getAuthorization s k' of Some w \<Rightarrow> Some w | None \<Rightarrow> if k' = k then Some v else None)"
  by (simp add: getAuthorization_def map_of_snoc del: map_of_append)

lemma queue_state:
  "snd (queueForSettlement now k s) = s \<or>
   (k \<notin> set (settlementQueue s) \<and> getAuthorization s k \<noteq> None \<and>
    snd (queueForSettlement now k s) =
      set_status k Validated (s\<lparr>settlementQueue := settlementQueue s @ [k]\<rparr>))"
  by (auto simp: queueForSettlement_def Let_def split: option.splits)

lemma createBatch_state:
  "snd (createSettlementBatch now agent m s) = s \<or>
   (\<exists>b. fst (createSettlementBatch now agent m s) = Some b \<and>
        snd (createSettlementBatch now agent m s) = s\<lparr>settlementBatches := settlementBatches s @ [b]\<rparr>)"
  by (auto simp: createSettlementBatch_def Let_def split: option.splits list.splits)

lemma foldl_remove1_subset: "set (foldl (\<lambda>q k. remove1 k q) q ms) \<subseteq> set q"
proof (induction ms arbitrary: q)
  case Nil
  show ?case by simp
next
  case (Cons m ms)
  have "set (foldl (\<lambda>q k. remove1 k q) (remove1 m q) ms) \<subseteq> set (remove1 m q)"
    by (rule Cons.IH)
  also have "\<dots> \<subseteq> set q"
    by (rule set_remove1_subset)
  finally show ?case by simp
qed

lemma foldl_remove1_distinct:
  "distinct q \<Longrightarrow> distinct (foldl (\<lambda>q k. remove1 k q) q ms) \<and>
     set (foldl (\<lambda>q k. remove1 k q) q ms) = set q - set ms"
  by (induction ms arbitrary: q) auto

lemma settle_members_queue:
  "settlementQueue (foldl settle_member s ms) = foldl (\<lambda>q k. remove1 k q) (settlementQueue s) ms"
  by (induction ms arbitrary: s) (simp_all add: settle_member_def)

lemma settle_member_auth:
  "getAuthorization (settle_member s m) k =
     (if k = m then map_option (\<lambda>a. a\<lparr>a_status := Settled\<rparr>) (getAuthorization s m)
      else getAuthorization s k)"
  by (simp add: settle_member_def getAuthorization_set_status)

lemma settle_members_auth:
  "getAuthorization (foldl settle_member s ms) k =
     (if k \<in> set ms then map_option (\<lambda>a. a\<lparr>a_status := Settled\<rparr>) (getAuthorization s k)
      else getAuthorization s k)"
proof (induction ms arbitrary: s)
  case Nil
  show ?case by simp
next
  case (Cons m ms)
  have "getAuthorization (foldl settle_member s (m # ms)) k =
          (if k \<in> set ms
           then map_option (\<lambda>a. a\<lparr>a_status := Settled\<rparr>) (getAuthorization (settle_member s m) k)
           else getAuthorization (settle_member s m) k)"
    by (simp only: foldl_Cons Cons.IH)
  then show ?case
    by (cases "getAuthorization s k") (auto simp: settle_member_auth)
qed

lemma settle_members_fields [simp]:
  "settlementBatches (foldl settle_member s ms) = settlementBatches s"
  "disputes (foldl settle_member s ms) = disputes s"
  by (induction ms arbitrary: s) (simp_all add: settle_member_def)

lemma fail_members_auth:
  "getAuthorization (foldl (\<lambda>t k. set_status k Pending t) s ms) k =
     (if k \<in> set ms then map_option (\<lambda>a. a\<lparr>a_status := Pending\<rparr>) (getAuthorization s k)
      else getAuthorization s k)"
proof (induction ms arbitrary: s)
  case Nil
  show ?case by simp
next
  case (Cons m ms)
  have "getAuthorization (foldl (\<lambda>t k. set_status k Pending t) s (m # ms)) k =
          (if k \<in> set ms
           then map_option (\<lambda>a. a\<lparr>a_status := Pending\<rparr>) (getAuthorization (set_status m Pending s) k)
           else getAuthorization (set_status m Pending s) k)"
    by (simp only: foldl_Cons Cons.IH)
  then show ?case
    by (cases "getAuthorization s k") (auto simp: getAuthorization_set_status)
qed

lemma fail_members_fields [simp]:
  "settlementBatches (foldl (\<lambda>t k. set_status k Pending t) s ms) = settlementBatches s"
  "disputes (foldl (\<lambda>t k. set_status k Pending t) s ms) = disputes s"
  "settlementQueue (foldl (\<lambda>t k. set_status k Pending t) s ms) = settlementQueue s"
  by (induction ms arbitrary: s) simp_all

lemma map_of_expire:
  "map_of (map (\<lambda>p. if E p then (fst p, f (snd p)) else p) ps) k =
     map_option (\<lambda>a. if E (k, a) then f a else a) (map_of ps k)"
  by (induction ps) auto

lemma cleanup_auth:
  "getAuthorization (snd (cleanupExpired now s)) k =
     map_option (\<lambda>a. if a_expiresAt a < now \<and> a_status a = Pending then a\<lparr>a_status := Expired\<rparr> else a)
       (getAuthorization s k)"
  by (simp add: cleanupExpired_def Let_def getAuthorization_def map_of_expire)
     (simp add: expire_entry_def)

lemma foldl_remove1_map:
  "foldl (\<lambda>q p. remove1 (g p) q) q ps = foldl (\<lambda>q k. remove1 k q) q (map g ps)"
  by (induction ps arbitrary: q) simp_all

lemma cleanup_queue:
  "settlementQueue (snd (cleanupExpired now s)) =
     foldl (\<lambda>q k. remove1 k q) (settlementQueue s)
       (map (\<lambda>p. a_id (snd p)) (filter (expire_entry now) (authorizations s)))"
  by (simp add: cleanupExpired_def Let_def) (rule foldl_remove1_map)

lemma cleanup_fields [simp]:
  "settlementBatches (snd (cleanupExpired now s)) = settlementBatches s"
  "disputes (snd (cleanupExpired now s)) = disputes s"
  by (simp_all add: cleanupExpired_def Let_def)

lemma complete_state:
  "step s (now, Complete bid tx) = s \<or>
   (\<exists>b. find (\<lambda>b. b_id b = bid) (settlementBatches s) = Some b \<and>
        step s (now, Complete bid tx) =
          foldl settle_member
            (s\<lparr>settlementBatches := update_first (\<lambda>b. b_id b = bid)
                  (\<lambda>b. b\<lparr>b_status := BCompleted, b_settledAt := Some now,
                         b_transactionSignature := Some tx\<rparr>) (settlementBatches s)\<rparr>)
            (b_authorizations b))"
  by (auto simp: completeSettlement_def split: option.splits)

lemma fail_state:
  "step s (now, Fail bid err) = s \<or>
   (\<exists>b. find (\<lambda>b. b_id b = bid) (settlementBatches s) = Some b \<and>
        step s (now, Fail bid err) =
          foldl (\<lambda>t k. set_status k Pending t)
            (s\<lparr>settlementBatches := update_first (\<lambda>b. b_id b = bid)
                  (\<lambda>b. b\<lparr>b_status := BFailed, b_error := Some err\<rparr>) (settlementBatches s)\<rparr>)
            (b_authorizations b))"
  by (auto simp: failSettlement_def split: option.splits)

lemma dispute_state:
  "step s (now, CreateDispute k agent reason) = s \<or>
   (\<exists>d. d_authorizationId d = k \<and>
        step s (now, CreateDispute k agent reason) =
          dequeue k (set_status k Disputed (s\<lparr>disputes := disputes s @ [d]\<rparr>)))"
proof (cases "createDispute now k agent reason s")
  case (Inl e)
  then show ?thesis by simp
next
  case (Inr r)
  then obtain a where a: "getAuthorization s k = Some a" "a_agentAddress a = agent"
    by (auto simp: createDispute_def Let_def split: option.splits if_splits)
  let ?d = "\<lparr>d_id = disputeId now k, d_authorizationId = k, d_agentAddress = agent,
             d_merchantAddress = a_merchantAddress a, d_reason = reason, d_status = DPending,
             d_createdAt = now, d_resolvedAt = None, d_resolution = None\<rparr>"
  have "step s (now, CreateDispute k agent reason) =
          dequeue k (set_status k Disputed (s\<lparr>disputes := disputes s @ [?d]\<rparr>))"
    using a by (simp add: createDispute_def Let_def)
  moreover have "d_authorizationId ?d = k" by simp
  ultimately show ?thesis by blast
qed

lemma resolve_state:
  "step s (now, Resolve did res rnote) = s \<or>
   (\<exists>d s1. find (\<lambda>d. d_id d = did) (disputes s) = Some d \<and>
        s1 = s\<lparr>disputes := update_first (\<lambda>d. d_id d = did)
                  (\<lambda>d. d\<lparr>d_status := DResolved, d_resolvedAt := Some now, d_resolution := rnote\<rparr>)
                  (disputes s)\<rparr> \<and>
        (step s (now, Resolve did res rnote) = s1 \<or>
         (res = Rejected \<and> (\<exists>a. getAuthorization s (d_authorizationId d) = Some a \<and>
            step s (now, Resolve did res rnote) =
              (set_status (d_authorizationId d) Validated s1)\<lparr>settlementQueue := settlementQueue s1 @ [a_id a]\<rparr>)) \<or>
         (res \<noteq> Rejected \<and> step s (now, Resolve did res rnote) = set_status (d_authorizationId d) Disputed s1)))"
  by (auto simp: resolveDispute_def Let_def split: option.splits)


lemmas sha_defs = sha256_hex_def pad_def zeros.simps be_bytes8_def hex32_def hexdigit_def compress_def
  sha_K_def sha_H0_def ssig0_def ssig1_def bsig0_def bsig1_def ch_def maj_def rotr_def add32_def

lemmas payload_defs = signaturePayload_def join_pipe_def show_int_def nat_digits.simps digit_char_def
  mk_auth_def

lemma auth1_fields [simp]:
  "a_id auth1 = ''a1''" "a_agentAddress auth1 = ''agent-0001''" "a_merchantAddress auth1 = ''m1''"
  "a_amount auth1 = ''0.6''" "a_currency auth1 = ''USDC''" "a_expiresAt auth1 = 5000"
  "a_status auth1 = Pending"
  by (simp_all add: auth1_def mk_auth_def)

lemma auth2_fields [simp]:
  "a_id auth2 = ''a2''" "a_agentAddress auth2 = ''agent-0001''" "a_merchantAddress auth2 = ''m1''"
  "a_amount auth2 = ''0.5''" "a_currency auth2 = ''USDC''" "a_expiresAt auth2 = 5000"
  "a_status auth2 = Pending"
  by (simp_all add: auth2_def mk_auth_def)

lemma auth3_fields [simp]:
  "a_id auth3 = ''a3''" "a_agentAddress auth3 = ''agent-0001''" "a_merchantAddress auth3 = ''m1''"
  "a_amount auth3 = ''0.5''" "a_currency auth3 = ''SOL''" "a_expiresAt auth3 = 5000"
  "a_status auth3 = Pending"
  by (simp_all add: auth3_def mk_auth_def)

lemma auth4_fields [simp]:
  "a_id auth4 = ''a4''" "a_agentAddress auth4 = ''agent-0001''" "a_merchantAddress auth4 = ''m2''"
  "a_amount auth4 = ''0.5''" "a_currency auth4 = ''USDC''" "a_expiresAt auth4 = 5000"
  "a_status auth4 = Pending"
  by (simp_all add: auth4_def mk_auth_def)

lemma payload1: "signaturePayload auth1 = ''a1|agent-0001|m1|0.6|USDC|1000|5000|n1''"
  by (simp add: auth1_def payload_defs)

lemma sig1 [simp]: "verifySignature auth1"
  unfolding verifySignature_def payload1
  by (simp add: auth1_def mk_auth_def sha_defs)

lemma payload2: "signaturePayload auth2 = ''a2|agent-0001|m1|0.5|USDC|1000|5000|n2''"
  by (simp add: auth2_def payload_defs)

lemma sig2 [simp]: "verifySignature auth2"
  unfolding verifySignature_def payload2
  by (simp add: auth2_def mk_auth_def sha_defs)

lemma payload3: "signaturePayload auth3 = ''a3|agent-0001|m1|0.5|SOL|1000|5000|n3''"
  by (simp add: auth3_def payload_defs)

lemma sig3 [simp]: "verifySignature auth3"
  unfolding verifySignature_def payload3
  by (simp add: auth3_def mk_auth_def sha_defs)

lemma payload4: "signaturePayload auth4 = ''a4|agent-0001|m2|0.5|USDC|1000|5000|n4''"
  by (simp add: auth4_def payload_defs)

lemma sig4 [simp]: "verifySignature auth4"
  unfolding verifySignature_def payload4
  by (simp add: auth4_def mk_auth_def sha_defs)

lemmas exec_defs = new_facilitator_def verifyAuthorization_def trackAgentUsage_def
  queueForSettlement_def getAuthorization_def set_status_def dequeue_def
  createSettlementBatch_def queuedAuthorizations_def chooseMerchant_def merchant_of_def
  batchId_def completeSettlement_def failSettlement_def settle_member_def createDispute_def
  disputeId_def resolveDispute_def cleanupExpired_def expire_entry_def Let_def show_int_def
  nat_digits.simps digit_char_def List.map_filter_def


lemma st_disputed_facts:
  "getAuthorization st_disputed ''a1'' = Some (auth1\<lparr>a_status := Disputed\<rparr>)"
  "settlementQueue st_disputed = []"
  "find (\<lambda>d. d_id d = ''dispute_1001_a1'') (disputes st_disputed) =
     Some \<lparr>d_id = ''dispute_1001_a1'', d_authorizationId = ''a1'', d_agentAddress = ''agent-0001'',
           d_merchantAddress = ''m1'', d_reason = ''Data quality issue'', d_status = DPending,
           d_createdAt = 1001, d_resolvedAt = None, d_resolution = None\<rparr>"
  by (simp_all add: st_disputed_def exec_defs)

lemma update_first_found: "find P xs = Some b \<Longrightarrow> f b \<in> set (update_first P f xs)"
  by (induction xs) (auto split: if_splits)

lemma update_first_other:
  "x \<in> set xs \<Longrightarrow> x \<in> set (update_first P f xs) \<or> find P xs = Some x"
  by (induction xs) auto

lemma update_first_image:
  assumes "\<And>x. g (f x) = g x"
  shows "g ` set (update_first P f xs) = g ` set xs"
  by (induction xs) (auto simp: assms)

lemma inv7_step:
  assumes "inv7 s" and "dispute_respecting s (snd c)"
  shows "inv7 (step s c)"
proof -
  obtain now cl where c: "c = (now, cl)" by (cases c)
  have d: "distinct (settlementQueue s)"
    and q: "\<And>x. x \<in> set (disputes s) \<Longrightarrow> d_authorizationId x \<notin> set (settlementQueue s)"
    using assms(1) by (auto simp: inv7_def dispute_free_queue_def)
  show ?thesis
  proof (cases cl)
    case (Verify a)
    show ?thesis
      using verify_state [of now a s] d q
      by (auto simp: c Verify inv7_def dispute_free_queue_def)
  next
    case (Queue k)
    have "k \<notin> d_authorizationId ` set (disputes s)"
      using assms(2) by (simp add: c Queue dispute_respecting_def)
    then show ?thesis
      using queue_state [of now k s] d q
      by (auto simp: c Queue inv7_def dispute_free_queue_def)
  next
    case (CreateBatch agent m)
    show ?thesis
      using createBatch_state [of now agent m s] d q
      by (auto simp: c CreateBatch inv7_def dispute_free_queue_def)
  next
    case (Complete bid tx)
    show ?thesis
      using complete_state [of s now bid tx] d q foldl_remove1_distinct [OF d]
      by (auto simp: c Complete inv7_def dispute_free_queue_def settle_members_queue)
  next
    case (Fail bid err)
    show ?thesis
      using fail_state [of s now bid err] d q
      by (auto simp: c Fail inv7_def dispute_free_queue_def)
  next
    case (CreateDispute k agent reason)
    obtain dd where "step s (now, CreateDispute k agent reason) = s \<or>
        (d_authorizationId dd = k \<and>
         step s (now, CreateDispute k agent reason) =
           dequeue k (set_status k Disputed (s\<lparr>disputes := disputes s @ [dd]\<rparr>)))"
      using dispute_state [of s now k agent reason] by blast
    then show ?thesis
      using d q by (auto simp: c CreateDispute inv7_def dispute_free_queue_def)
  next
    case (Resolve did res rn)
    have res: "res = Approved"
      using assms(2) by (simp add: c Resolve dispute_respecting_def)
    have img: "d_authorizationId ` set (update_first (\<lambda>d. d_id d = did)
                 (\<lambda>d. d\<lparr>d_status := DResolved, d_resolvedAt := Some now, d_resolution := rn\<rparr>)
                 (disputes s)) = d_authorizationId ` set (disputes s)"
      by (rule update_first_image) simp
    have facts: "settlementQueue (step s (now, Resolve did res rn)) = settlementQueue s \<and>
        d_authorizationId ` set (disputes (step s (now, Resolve did res rn))) =
          d_authorizationId ` set (disputes s)"
      using resolve_state [of s now did res rn] img res by (elim disjE exE conjE) simp_all
    have "dispute_free_queue (step s (now, Resolve did res rn))"
      unfolding dispute_free_queue_def
    proof
      fix x assume "x \<in> set (disputes (step s (now, Resolve did res rn)))"
      then have "d_authorizationId x \<in> d_authorizationId ` set (disputes s)"
        using facts by blast
      then show "d_authorizationId x \<notin> set (settlementQueue (step s (now, Resolve did res rn)))"
        using q facts by auto
    qed
    then show ?thesis
      using facts d by (simp add: c Resolve inv7_def del: step.simps)
  next
    case Cleanup
    have sub: "set (settlementQueue (snd (cleanupExpired now s))) \<subseteq> set (settlementQueue s)"
      by (simp add: cleanup_queue foldl_remove1_subset)
    have dist: "distinct (settlementQueue (snd (cleanupExpired now s)))"
      using foldl_remove1_distinct [OF d] by (simp add: cleanup_queue)
    show ?thesis
      using sub dist q by (auto simp: c Cleanup inv7_def dispute_free_queue_def)
  qed
qed

lemma update_first_keeps:
  assumes "x \<in> set xs" and "\<And>y. g (f y) = g y" and "\<And>y. Q y \<Longrightarrow> Q (f y)"
  shows "\<exists>y \<in> set (update_first P f xs). g y = g x \<and> (Q x \<longrightarrow> Q y)"
  using assms(1) by (induction xs) (auto simp: assms(2) assms(3))

lemma inv8_step:
  assumes "settled_in_completed s" and "submitted_pending s (snd c)"
  shows "settled_in_completed (step s c)"
proof -
  obtain now cl where c: "c = (now, cl)" by (cases c)
  have q: "\<And>k a. getAuthorization s k = Some a \<Longrightarrow> a_status a = Settled \<Longrightarrow>
             \<exists>b \<in> set (settlementBatches s). b_status b = BCompleted \<and> k \<in> set (b_authorizations b)"
    using assms(1) by (auto simp: settled_in_completed_def)
  show ?thesis
  proof (cases cl)
    case (Verify a)
    have p: "a_status a = Pending"
      using assms(2) by (simp add: c Verify submitted_pending_def)
    show ?thesis
      using verify_state [of now a s] p assms(1)
      by (auto simp: c Verify settled_in_completed_def getAuthorization_snoc split: option.splits if_splits)
  next
    case (Queue k)
    show ?thesis
      using queue_state [of now k s] assms(1)
      by (auto simp: c Queue settled_in_completed_def getAuthorization_set_status split: if_splits)
  next
    case (CreateBatch agent m)
    show ?thesis
      using createBatch_state [of now agent m s] assms(1)
      by (auto simp: c CreateBatch settled_in_completed_def)
  next
    case (Complete bid tx)
    let ?f = "\<lambda>b. b\<lparr>b_status := BCompleted, b_settledAt := Some now, b_transactionSignature := Some tx\<rparr>"
    let ?bs = "update_first (\<lambda>b. b_id b = bid) ?f (settlementBatches s)"
    from complete_state [of s now bid tx]
    consider "step s (now, Complete bid tx) = s"
      | b where "find (\<lambda>b. b_id b = bid) (settlementBatches s) = Some b"
          "step s (now, Complete bid tx) =
             foldl settle_member (s\<lparr>settlementBatches := ?bs\<rparr>) (b_authorizations b)"
      by blast
    then show ?thesis
    proof cases
      case 1
      then show ?thesis using assms(1) by (simp add: c Complete del: step.simps)
    next
      case 2
      have new: "?f b \<in> set ?bs"
        using 2(1) by (rule update_first_found)
      have old: "\<exists>y \<in> set ?bs. b_authorizations y = b_authorizations x \<and>
                   (b_status x = BCompleted \<longrightarrow> b_status y = BCompleted)"
        if "x \<in> set (settlementBatches s)" for x
        using that by (rule update_first_keeps) simp_all
      show ?thesis
        unfolding settled_in_completed_def c Complete 2(2)
      proof (intro allI impI)
        fix k a
        assume g: "getAuthorization (foldl settle_member (s\<lparr>settlementBatches := ?bs\<rparr>) (b_authorizations b)) k = Some a"
          and st: "a_status a = Settled"
        show "\<exists>x \<in> set (settlementBatches (foldl settle_member (s\<lparr>settlementBatches := ?bs\<rparr>) (b_authorizations b))).
                b_status x = BCompleted \<and> k \<in> set (b_authorizations x)"
        proof (cases "k \<in> set (b_authorizations b)")
          case True
          then show ?thesis using new by (auto intro!: bexI [where x = "?f b"])
        next
          case False
          then have "getAuthorization s k = Some a"
            using g by (simp add: settle_members_auth)
          then obtain x where "x \<in> set (settlementBatches s)" "b_status x = BCompleted"
              "k \<in> set (b_authorizations x)"
            using q st by blast
          then show ?thesis using old [of x] by auto
        qed
      qed
    qed
  next
    case (Fail bid err)
    let ?f = "\<lambda>b. b\<lparr>b_status := BFailed, b_error := Some err\<rparr>"
    let ?bs = "update_first (\<lambda>b. b_id b = bid) ?f (settlementBatches s)"
    from fail_state [of s now bid err]
    consider "step s (now, Fail bid err) = s"
      | b where "find (\<lambda>b. b_id b = bid) (settlementBatches s) = Some b"
          "step s (now, Fail bid err) =
             foldl (\<lambda>t k. set_status k Pending t) (s\<lparr>settlementBatches := ?bs\<rparr>) (b_authorizations b)"
      by blast
    then show ?thesis
    proof cases
      case 1
      then show ?thesis using assms(1) by (simp add: c Fail del: step.simps)
    next
      case 2
      show ?thesis
        unfolding settled_in_completed_def c Fail 2(2)
      proof (intro allI impI)
        fix k a
        assume g: "getAuthorization (foldl (\<lambda>t k. set_status k Pending t) (s\<lparr>settlementBatches := ?bs\<rparr>) (b_authorizations b)) k = Some a"
          and st: "a_status a = Settled"
        have nk: "k \<notin> set (b_authorizations b)"
          using g st by (auto simp: fail_members_auth split: if_splits)
        then have "getAuthorization s k = Some a"
          using g by (simp add: fail_members_auth)
        then obtain x where x: "x \<in> set (settlementBatches s)" "b_status x = BCompleted"
            "k \<in> set (b_authorizations x)"
          using q st by blast
        then have "x \<noteq> b" using nk by auto
        then have "x \<in> set ?bs"
          using update_first_other [OF x(1), of "\<lambda>b. b_id b = bid" ?f] 2(1) by auto
        then show "\<exists>x \<in> set (settlementBatches (foldl (\<lambda>t k. set_status k Pending t) (s\<lparr>settlementBatches := ?bs\<rparr>) (b_authorizations b))).
                b_status x = BCompleted \<and> k \<in> set (b_authorizations x)"
          using x by auto
      qed
    qed
  next
    case (CreateDispute k agent reason)
    obtain dd where "step s (now, CreateDispute k agent reason) = s \<or>
        (d_authorizationId dd = k \<and>
         step s (now, CreateDispute k agent reason) =
           dequeue k (set_status k Disputed (s\<lparr>disputes := disputes s @ [dd]\<rparr>)))"
      using dispute_state [of s now k agent reason] by blast
    then show ?thesis
      using assms(1)
      by (auto simp: c CreateDispute settled_in_completed_def getAuthorization_set_status
               simp del: step.simps split: if_splits)
  next
    case (Resolve did res rn)
    show ?thesis
      using resolve_state [of s now did res rn] assms(1)
      by (elim disjE exE conjE)
         (auto simp: c Resolve settled_in_completed_def getAuthorization_set_status
               simp del: step.simps split: if_splits)
  next
    case Cleanup
    show ?thesis
      using assms(1)
      by (auto simp: c Cleanup settled_in_completed_def cleanup_auth split: if_splits)
  qed
qed



























lemma verifySignature_status [simp]:
  "verifySignature (a\<lparr>a_status := st\<rparr>) = verifySignature a"
  by (simp add: verifySignature_def signaturePayload_def)



section \<open>The claims\<close>












text \<open>
  Claim C5. \<^verbatim>\<open>resolveDispute\<close> on a known dispute whose authorization is stored sets
  the dispute to \<^verbatim>\<open>resolved\<close>, sets \<^verbatim>\<open>resolvedAt\<close> to the time of the call and
  records the note; with \<^verbatim>\<open>rejected\<close> the authorization is \<^verbatim>\<open>validated\<close> afterwards
  and its id is appended to the settlement queue, with \<^verbatim>\<open>approved\<close> it is
  \<^verbatim>\<open>disputed\<close> afterwards and the queue is as it was.
\<close>

theorem resolveDispute_effect:
  assumes "find (\<lambda>d. d_id d = did) (disputes s) = Some d"
    and "getAuthorization s (d_authorizationId d) = Some a"
  shows "\<exists>s'. resolveDispute now did res rnote s = Inr s' \<and>
           find (\<lambda>d. d_id d = did) (disputes s') =
             Some (d\<lparr>d_status := DResolved, d_resolvedAt := Some now, d_resolution := rnote\<rparr>) \<and>
           (res = Rejected \<longrightarrow>
              map_option a_status (getAuthorization s' (d_authorizationId d)) = Some Validated \<and>
              settlementQueue s' = settlementQueue s @ [a_id a]) \<and>
           (res = Approved \<longrightarrow>
              map_option a_status (getAuthorization s' (d_authorizationId d)) = Some Disputed \<and>
              settlementQueue s' = settlementQueue s)"
proof -
  have idd: "d_id d = did"
    using assms(1) by (auto simp: find_Some_iff)
  have f: "find (\<lambda>d. d_id d = did)
             (update_first (\<lambda>d. d_id d = did)
               (\<lambda>d. d\<lparr>d_status := DResolved, d_resolvedAt := Some now, d_resolution := rnote\<rparr>)
               (disputes s)) =
           Some (d\<lparr>d_status := DResolved, d_resolvedAt := Some now, d_resolution := rnote\<rparr>)"
    by (rule find_update_first [OF assms(1)]) (simp add: idd)
  show ?thesis
    using assms f by (cases res) (auto simp: resolveDispute_def Let_def getAuthorization_set_status)
qed

theorem resolveDispute_effect_witness:
  "(case resolveDispute 1002 ''dispute_1001_a1'' Rejected (Some ''Data was valid'') st_disputed of
      Inl e \<Rightarrow> False
    | Inr s' \<Rightarrow> map_option a_status (getAuthorization s' ''a1'') = Some Validated \<and>
               settlementQueue s' = [''a1'']) \<and>
   (case resolveDispute 1002 ''dispute_1001_a1'' Approved (Some ''Agent was right'') st_disputed of
      Inl e \<Rightarrow> False
    | Inr s' \<Rightarrow> map_option a_status (getAuthorization s' ''a1'') = Some Disputed \<and>
               settlementQueue s' = [])"
  using resolveDispute_effect [OF st_disputed_facts(3), where a = "auth1\<lparr>a_status := Disputed\<rparr>"
      and now = 1002 and res = Rejected and rnote = "Some ''Data was valid''"]
    resolveDispute_effect [OF st_disputed_facts(3), where a = "auth1\<lparr>a_status := Disputed\<rparr>"
      and now = 1002 and res = Approved and rnote = "Some ''Agent was right''"]
  by (auto simp: st_disputed_facts)




text \<open>
  Claim C7 as stated does not hold. \<^verbatim>\<open>queueForSettlement\<close> refuses only an unknown id,
  a queued id and a settled authorization, so an authorization under dispute is queued
  again: after verify, createDispute and queueForSettlement the dispute is still
  \<^verbatim>\<open>pending\<close> and the id \<^verbatim>\<open>a1\<close> is in the settlement queue.
\<close>

theorem disputed_requeued:
  "map d_authorizationId (disputes st_requeued) = [''a1''] \<and>
   map d_status (disputes st_requeued) = [DPending] \<and>
   settlementQueue st_requeued = [''a1''] \<and>
   \<not> dispute_free_queue st_requeued"
  by (simp add: st_requeued_def dispute_free_queue_def exec_defs)

text \<open>
  Claim C7, as amended. In every state reached from a new facilitator by calls in which
  \<^verbatim>\<open>queueForSettlement\<close> is not given the id of an authorization that has a dispute and
  \<^verbatim>\<open>resolveDispute\<close> is given the resolution \<^verbatim>\<open>approved\<close> only, no authorization that a
  dispute refers to is in the settlement queue.
\<close>

theorem disputed_absent_while_respected:
  assumes "admitted dispute_respecting (new_facilitator th) cs"
  shows "dispute_free_queue (run (new_facilitator th) cs)"
proof -
  have "inv7 (new_facilitator th)"
    by (simp add: inv7_def dispute_free_queue_def new_facilitator_def)
  moreover have "\<And>s c. inv7 s \<Longrightarrow> dispute_respecting s (snd c) \<Longrightarrow> inv7 (step s c)"
    by (rule inv7_step)
  ultimately have "inv7 (run (new_facilitator th) cs)"
    using assms admitted_invariant [where I = inv7 and ok = dispute_respecting] by blast
  then show ?thesis by (simp add: inv7_def)
qed

theorem disputed_absent_while_respected_witness:
  "admitted dispute_respecting (new_facilitator th0)
     [(1000, Verify auth1), (1001, Queue ''a1''),
      (1002, CreateDispute ''a1'' ''agent-0001'' ''Data quality issue''),
      (1003, Resolve ''dispute_1002_a1'' Approved (Some ''Agent was right''))] \<and>
   map d_authorizationId (disputes (run (new_facilitator th0)
     [(1000, Verify auth1), (1001, Queue ''a1''),
      (1002, CreateDispute ''a1'' ''agent-0001'' ''Data quality issue''),
      (1003, Resolve ''dispute_1002_a1'' Approved (Some ''Agent was right''))])) = [''a1''] \<and>
   dispute_free_queue (run (new_facilitator th0)
     [(1000, Verify auth1), (1001, Queue ''a1''),
      (1002, CreateDispute ''a1'' ''agent-0001'' ''Data quality issue''),
      (1003, Resolve ''dispute_1002_a1'' Approved (Some ''Agent was right''))])"
proof -
  have adm: "admitted dispute_respecting (new_facilitator th0)
     [(1000, Verify auth1), (1001, Queue ''a1''),
      (1002, CreateDispute ''a1'' ''agent-0001'' ''Data quality issue''),
      (1003, Resolve ''dispute_1002_a1'' Approved (Some ''Agent was right''))]"
    by (simp add: dispute_respecting_def exec_defs)
  have "map d_authorizationId (disputes (run (new_facilitator th0)
     [(1000, Verify auth1), (1001, Queue ''a1''),
      (1002, CreateDispute ''a1'' ''agent-0001'' ''Data quality issue''),
      (1003, Resolve ''dispute_1002_a1'' Approved (Some ''Agent was right''))])) = [''a1'']"
    by (simp add: exec_defs)
  then show ?thesis
    using adm disputed_absent_while_respected [OF adm] by simp
qed

text \<open>
  Claim C8 as stated does not hold: the completed batch is not unique.
  \<^verbatim>\<open>createSettlementBatch\<close> leaves the members in the queue, so a second call puts the
  same authorization into a second batch, and both batches can be completed.
\<close>

theorem settled_in_two_completed_batches:
  "map_option a_status (getAuthorization st_twice ''a1'') = Some Settled \<and>
   map b_id (settlementBatches st_twice) = [''batch_1002_agent-00'', ''batch_1003_agent-00''] \<and>
   map b_status (settlementBatches st_twice) = [BCompleted, BCompleted] \<and>
   map b_authorizations (settlementBatches st_twice) = [[''a1''], [''a1'']]"
  by (simp add: st_twice_def exec_defs)

text \<open>
  Claim C8, as amended. In every state reached from a new facilitator by calls of the
  service in which every authorization is submitted to \<^verbatim>\<open>verifyAuthorization\<close> with status
  \<^verbatim>\<open>pending\<close>, every stored authorization with status \<^verbatim>\<open>settled\<close> is a member of at
  least one batch with status \<^verbatim>\<open>completed\<close>. There can be more than one such batch.
\<close>

theorem settled_has_completed_batch:
  assumes "admitted submitted_pending (new_facilitator th) cs"
  shows "settled_in_completed (run (new_facilitator th) cs)"
proof -
  have "settled_in_completed (new_facilitator th)"
    by (simp add: settled_in_completed_def new_facilitator_def getAuthorization_def)
  moreover have "\<And>s c. settled_in_completed s \<Longrightarrow> submitted_pending s (snd c) \<Longrightarrow>
                   settled_in_completed (step s c)"
    by (rule inv8_step)
  ultimately show ?thesis
    using assms admitted_invariant [where I = settled_in_completed and ok = submitted_pending]
    by blast
qed

theorem settled_has_completed_batch_witness:
  "admitted submitted_pending (new_facilitator th0)
     [(1000, Verify auth1), (1001, Queue ''a1''), (1002, CreateBatch ''agent-0001'' None),
      (1003, Complete ''batch_1002_agent-00'' ''tx1'')] \<and>
   map_option a_status (getAuthorization (run (new_facilitator th0)
     [(1000, Verify auth1), (1001, Queue ''a1''), (1002, CreateBatch ''agent-0001'' None),
      (1003, Complete ''batch_1002_agent-00'' ''tx1'')]) ''a1'') = Some Settled \<and>
   settled_in_completed (run (new_facilitator th0)
     [(1000, Verify auth1), (1001, Queue ''a1''), (1002, CreateBatch ''agent-0001'' None),
      (1003, Complete ''batch_1002_agent-00'' ''tx1'')])"
proof -
  have adm: "admitted submitted_pending (new_facilitator th0)
     [(1000, Verify auth1), (1001, Queue ''a1''), (1002, CreateBatch ''agent-0001'' None),
      (1003, Complete ''batch_1002_agent-00'' ''tx1'')]"
    by (simp add: submitted_pending_def)
  have "map_option a_status (getAuthorization (run (new_facilitator th0)
     [(1000, Verify auth1), (1001, Queue ''a1''), (1002, CreateBatch ''agent-0001'' None),
      (1003, Complete ''batch_1002_agent-00'' ''tx1'')]) ''a1'') = Some Settled"
    by (simp add: exec_defs)
  then show ?thesis
    using adm settled_has_completed_batch [OF adm] by simp
qed




text \<open>
  Claim C10. A stored authorization with status \<^verbatim>\<open>disputed\<close> or \<^verbatim>\<open>expired\<close> whose
  id is not in the settlement queue is accepted by \<^verbatim>\<open>queueForSettlement\<close>: the call
  succeeds, appends the id to the queue and sets the status to \<^verbatim>\<open>validated\<close>.
\<close>

theorem requeue_disputed_or_expired:
  assumes "getAuthorization s k = Some a"
    and "a_status a = Disputed \<or> a_status a = Expired"
    and "k \<notin> set (settlementQueue s)"
  shows "success (fst (queueForSettlement now k s)) \<and>
         settlementQueue (snd (queueForSettlement now k s)) = settlementQueue s @ [k] \<and>
         map_option a_status (getAuthorization (snd (queueForSettlement now k s)) k) = Some Validated"
  using assms by (auto simp: queueForSettlement_def Let_def getAuthorization_set_status)

theorem requeue_disputed_or_expired_witness:
  "success (fst (queueForSettlement 1002 ''a1'' st_disputed)) \<and>
   settlementQueue (snd (queueForSettlement 1002 ''a1'' st_disputed)) = [''a1''] \<and>
   map_option a_status (getAuthorization (snd (queueForSettlement 1002 ''a1'' st_disputed)) ''a1'') =
     Some Validated"
  using requeue_disputed_or_expired [where s = st_disputed and k = "''a1''"
      and a = "auth1\<lparr>a_status := Disputed\<rparr>" and now = 1002]
  by (simp add: st_disputed_facts)

end
